theory Spec2Isabelle
  imports Main "HOL-Library.Word"
begin

section \<open>The misc writer of \<^verbatim>\<open>misc_writer/misc_writer.cpp\<close>\<close>

text \<open>
  The file writes small flags into the vendor space of the misc partition. The model
  follows it function by function. Machine integers are those of an LP64 build:
  \<^verbatim>\<open>size_t\<close> is a 64-bit word and \<^verbatim>\<open>off_t\<close> is the signed reading of a 64-bit
  word (bionic's \<^verbatim>\<open>off_t\<close> has the width of \<^verbatim>\<open>size_t\<close>). Bytes are \<^typ>\<open>char\<close>,
  a \<^verbatim>\<open>std::string\<close> is a \<^typ>\<open>string\<close>.
\<close>

type_synonym size_t = "64 word"

subsection \<open>Constants of the headers\<close>

text \<open>
  The two layout constants come from \<^verbatim>\<open>bootloader_message.h\<close> and the four flag
  constants from \<^verbatim>\<open>misc_writer.h\<close>; neither header is part of the sources, so the
  constants are a parameter of every function that reads them. A flag is a
  \<^verbatim>\<open>char\<close> array; the code only ever reads it as a C string.
\<close>

record layout =
  VENDOR_SPACE_OFFSET_IN_MISC :: size_t
  WIPE_PACKAGE_OFFSET_IN_MISC :: size_t
  kThemeFlagOffsetInVendorSpace :: size_t
  kDarkThemeFlag :: string
  kSotaFlagOffsetInVendorSpace :: size_t
  kSotaFlag :: string

datatype MiscWriterActions =
  kSetDarkThemeFlag | kClearDarkThemeFlag | kSetSotaFlag | kClearSotaFlag | kUnset

subsection \<open>C strings and formatting\<close>

definition NUL :: char where
  "NUL = CHR 0x00"

text \<open>A \<^verbatim>\<open>const char*\<close> read as a C string ends before its first NUL byte:
  \<^verbatim>\<open>std::string::c_str()\<close> passed to \<^verbatim>\<open>open\<close> or to \<^verbatim>\<open>%s\<close>, and a
  \<^verbatim>\<open>char\<close> array converted to \<^verbatim>\<open>std::string\<close>.\<close>

definition c_str :: "string \<Rightarrow> string" where
  "c_str s = takeWhile (\<lambda>c. c \<noteq> NUL) s"

definition strlen :: "string \<Rightarrow> nat" where
  "strlen s = length (c_str s)"

definition digit :: "nat \<Rightarrow> char" where
  "digit d = ''0123456789'' ! d"

text \<open>\<^verbatim>\<open>%zu\<close> and \<^verbatim>\<open>operator<<(size_t)\<close>: the decimal numeral.\<close>

fun show_nat :: "nat \<Rightarrow> string" where
  "show_nat n = (if n < 10 then [digit n] else show_nat (n div 10) @ [digit (n mod 10)])"

declare show_nat.simps [simp del]

subsection \<open>The world outside the program\<close>

text \<open>
  What the system calls act on: the default fstab (\<open>None\<close> when it cannot be read),
  the block devices by path with their bytes, the calls made so far, and the lines sent
  to \<^verbatim>\<open>LOG(ERROR)\<close>. The global \<^verbatim>\<open>g_misc_device_for_test\<close> of the program is part of
  the state.
\<close>

record fstab_entry =
  mount_point :: string
  blk_device :: string

datatype io_event =
  EvReadDefaultFstab
  | EvOpen string
  | EvLseek int
  | EvWrite string nat string
  | EvFsync string
  | EvClose string

record world =
  g_misc_device_for_test :: string
  default_fstab :: "fstab_entry list option"
  nodes :: "string \<Rightarrow> string option"
  io_trace :: "io_event list"
  error_log :: "string list"

text \<open>
  What goes wrong in the system during one call, beyond what the state of the devices
  decides: a refused open, a failing seek, a device that reports an error after
  accepting some bytes, a failing flush; and the text of \<^verbatim>\<open>strerror(errno)\<close> at
  the failing call.
\<close>

record faults =
  open_fault :: bool
  lseek_fault :: bool
  write_fault :: "nat option"
  fsync_fault :: bool
  strerror_errno :: string

definition no_faults :: faults where
  "no_faults = \<lparr>open_fault = False, lseek_fault = False, write_fault = None,
     fsync_fault = False, strerror_errno = ''''\<rparr>"

record fd =
  fd_path :: string
  fd_pos :: nat

definition emit :: "io_event \<Rightarrow> world \<Rightarrow> world" where
  "emit e w = w\<lparr>io_trace := io_trace w @ [e]\<rparr>"

text \<open>\<^verbatim>\<open>open(path, O_WRONLY)\<close>: there is no \<^verbatim>\<open>O_CREAT\<close>, so a path with no node
  fails; a new descriptor is at position 0. \<open>None\<close> is the result -1.\<close>

definition sys_open :: "string \<Rightarrow> faults \<Rightarrow> world \<Rightarrow> fd option" where
  "sys_open path fl w =
     (if open_fault fl then None
      else case nodes w path of
             None \<Rightarrow> None
           | Some _ \<Rightarrow> Some \<lparr>fd_path = path, fd_pos = 0\<rparr>)"

definition dev_size :: "world \<Rightarrow> string \<Rightarrow> nat" where
  "dev_size w path = (case nodes w path of None \<Rightarrow> 0 | Some bs \<Rightarrow> length bs)"

text \<open>\<^verbatim>\<open>lseek(fd, off, SEEK_SET)\<close> on a block device, as POSIX has it: the new
  position; or -1 (\<^verbatim>\<open>EINVAL\<close>) with the position unchanged when the offset is negative
  or beyond the device.\<close>

definition sys_lseek :: "fd \<Rightarrow> int \<Rightarrow> faults \<Rightarrow> world \<Rightarrow> int \<times> fd" where
  "sys_lseek f off fl w =
     (if lseek_fault fl \<or> off < 0 \<or> int (dev_size w (fd_path f)) < off then (- 1, f)
      else (off, f\<lparr>fd_pos := nat off\<rparr>))"

text \<open>The bytes of a device after \<open>buf\<close> is stored at \<open>pos\<close>; a device has a fixed
  size, so what does not fit is not stored.\<close>

definition store_bytes :: "string \<Rightarrow> nat \<Rightarrow> string \<Rightarrow> string" where
  "store_bytes dev pos buf =
     take pos dev @ take (length dev - pos) buf @ drop (pos + length buf) dev"

text \<open>\<^verbatim>\<open>android::base::WriteFully(fd, p, n)\<close>: repeats \<^verbatim>\<open>write\<close> until all \<open>n\<close>
  bytes are stored or a \<^verbatim>\<open>write\<close> fails. With nothing to write it calls nothing and
  succeeds. The bytes accepted before a failure stay on the device.\<close>

definition WriteFully :: "fd \<Rightarrow> string \<Rightarrow> faults \<Rightarrow> world \<Rightarrow> bool \<times> world" where
  "WriteFully f buf fl w =
     (if buf = [] then (True, w)
      else case nodes w (fd_path f) of
             None \<Rightarrow> (False, w)
           | Some dev \<Rightarrow>
               let room = length dev - fd_pos f;
                   limit = (case write_fault fl of None \<Rightarrow> room | Some k \<Rightarrow> min k room);
                   n = min (length buf) limit;
                   w' = emit (EvWrite (fd_path f) (fd_pos f) (take n buf))
                          (w\<lparr>nodes :=
                               (nodes w)(fd_path f \<mapsto> store_bytes dev (fd_pos f) (take n buf))\<rparr>)
               in (n = length buf, w'))"

text \<open>\<^verbatim>\<open>fsync(fd)\<close>: 0, or -1.\<close>

definition sys_fsync :: "faults \<Rightarrow> int" where
  "sys_fsync fl = (if fsync_fault fl then - 1 else 0)"

subsection \<open>The functions of the file\<close>

definition SetMiscBlockDeviceForTest :: "string \<Rightarrow> world \<Rightarrow> world" where
  "SetMiscBlockDeviceForTest misc_device w = w\<lparr>g_misc_device_for_test := misc_device\<rparr>"

text \<open>The loop of \<^verbatim>\<open>get_misc_blk_device\<close> over the entries of the fstab.\<close>

fun scan_fstab :: "fstab_entry list \<Rightarrow> string option" where
  "scan_fstab [] = None"
| "scan_fstab (entry # rest) =
     (if mount_point entry = ''/misc'' then Some (blk_device entry) else scan_fstab rest)"

text \<open>\<^verbatim>\<open>get_misc_blk_device(err)\<close>: the returned path, the string behind \<open>err\<close>
  after the call, and the world.\<close>

definition get_misc_blk_device :: "string \<Rightarrow> world \<Rightarrow> string \<times> string \<times> world" where
  "get_misc_blk_device err w =
     (if g_misc_device_for_test w \<noteq> [] then (g_misc_device_for_test w, err, w)
      else
        let w1 = emit EvReadDefaultFstab w in
        case default_fstab w of
          None \<Rightarrow> ([], ''failed to read default fstab'', w1)
        | Some fstab \<Rightarrow>
            (case scan_fstab fstab of
               Some dev \<Rightarrow> (dev, err, w1)
             | None \<Rightarrow> ([], ''failed to find /misc partition'', w1)))"

text \<open>\<^verbatim>\<open>write_misc_partition(p, size, misc_blk_device, offset, err)\<close>: \<open>p\<close> is the
  memory at the pointer, of which the first \<open>size\<close> bytes are written. The result is
  the returned flag, the string behind \<open>err\<close> and the world. The descriptor is a
  \<^verbatim>\<open>unique_fd\<close>, closed on every way out once it is open.\<close>

definition write_misc_partition ::
  "string \<Rightarrow> size_t \<Rightarrow> string \<Rightarrow> size_t \<Rightarrow> string \<Rightarrow> faults \<Rightarrow> world \<Rightarrow> bool \<times> string \<times> world"
where
  "write_misc_partition p sz misc_blk_device offset err fl w =
     (let path = c_str misc_blk_device;
          w1 = emit (EvOpen path) w
      in case sys_open path fl w1 of
           None \<Rightarrow>
             (False, ''failed to open '' @ path @ '': '' @ strerror_errno fl, w1)
         | Some f \<Rightarrow>
             let (r, f') = sys_lseek f (sint offset) fl w1;
                 w2 = emit (EvLseek (sint offset)) w1
             in if r \<noteq> sint offset then
                  (False, ''failed to lseek '' @ path @ '': '' @ strerror_errno fl,
                   emit (EvClose path) w2)
                else
                  let (ok, w3) = WriteFully f' (take (unat sz) p) fl w2
                  in if \<not> ok then
                       (False, ''failed to write '' @ path @ '': '' @ strerror_errno fl,
                        emit (EvClose path) w3)
                     else
                       let w4 = emit (EvFsync path) w3
                       in if sys_fsync fl = - 1 then
                            (False, ''failed to fsync '' @ path @ '': '' @ strerror_errno fl,
                             emit (EvClose path) w4)
                          else (True, err, emit (EvClose path) w4))"

text \<open>\<^verbatim>\<open>MiscWriter::OffsetAndSizeInVendorSpace\<close>: \<^verbatim>\<open>&&\<close> evaluates its right
  operand only when the left one holds.\<close>

definition OffsetAndSizeInVendorSpace :: "layout \<Rightarrow> size_t \<Rightarrow> size_t \<Rightarrow> bool" where
  "OffsetAndSizeInVendorSpace K offset sz =
     (let total_size = WIPE_PACKAGE_OFFSET_IN_MISC K - VENDOR_SPACE_OFFSET_IN_MISC K
      in if sz \<le> total_size then offset \<le> total_size - sz else False)"

definition WriteMiscPartitionVendorSpace ::
  "layout \<Rightarrow> string \<Rightarrow> size_t \<Rightarrow> size_t \<Rightarrow> string \<Rightarrow> faults \<Rightarrow> world \<Rightarrow> bool \<times> string \<times> world"
where
  "WriteMiscPartitionVendorSpace K data sz offset err fl w =
     (if \<not> OffsetAndSizeInVendorSpace K offset sz then
        (False,
         ''Out of bound write (offset '' @ show_nat (unat offset) @ '' size '' @
           show_nat (unat sz) @ '')'',
         w)
      else
        let (misc_blk_device, err1, w1) = get_misc_blk_device err w
        in if misc_blk_device = [] then (False, err1, w1)
           else write_misc_partition data sz misc_blk_device
                  (VENDOR_SPACE_OFFSET_IN_MISC K + offset) err1 fl w1)"

text \<open>The \<^verbatim>\<open>switch\<close> of \<^verbatim>\<open>PerformAction\<close>: the offset and the content it leaves
  in the two locals, or \<open>None\<close> where it returns.\<close>

definition value_or :: "'a option \<Rightarrow> 'a \<Rightarrow> 'a" where
  "value_or opt d = (case opt of None \<Rightarrow> d | Some v \<Rightarrow> v)"

fun action_switch :: "layout \<Rightarrow> MiscWriterActions \<Rightarrow> size_t option \<Rightarrow> (size_t \<times> string) option"
where
  "action_switch K kSetDarkThemeFlag override_offset =
     Some (value_or override_offset (kThemeFlagOffsetInVendorSpace K), c_str (kDarkThemeFlag K))"
| "action_switch K kClearDarkThemeFlag override_offset =
     Some (value_or override_offset (kThemeFlagOffsetInVendorSpace K),
           replicate (strlen (kDarkThemeFlag K)) NUL)"
| "action_switch K kSetSotaFlag override_offset =
     Some (value_or override_offset (kSotaFlagOffsetInVendorSpace K), c_str (kSotaFlag K))"
| "action_switch K kClearSotaFlag override_offset =
     Some (value_or override_offset (kSotaFlagOffsetInVendorSpace K),
           replicate (strlen (kSotaFlag K)) NUL)"
| "action_switch K kUnset override_offset = None"

definition log_error :: "string \<Rightarrow> world \<Rightarrow> world" where
  "log_error line w = w\<lparr>error_log := error_log w @ [line]\<rparr>"

text \<open>\<^verbatim>\<open>MiscWriter::PerformAction(override_offset)\<close>, with the member \<^verbatim>\<open>action_\<close>
  as the argument \<open>action\<close>. The local \<^verbatim>\<open>err\<close> starts empty.\<close>

definition PerformAction ::
  "layout \<Rightarrow> MiscWriterActions \<Rightarrow> size_t option \<Rightarrow> faults \<Rightarrow> world \<Rightarrow> bool \<times> world"
where
  "PerformAction K action override_offset fl w =
     (case action_switch K action override_offset of
        None \<Rightarrow> (False, log_error ''The misc writer action must be set'' w)
      | Some (offset, content) \<Rightarrow>
          (case WriteMiscPartitionVendorSpace K content (of_nat (length content)) offset [] fl w of
             (ok, err, w') \<Rightarrow>
               if \<not> ok then
                 (False,
                  log_error (''Failed to write '' @ content @ '' at offset '' @
                             show_nat (unat offset) @ '' : '' @ err) w')
               else (True, w')))"

subsection \<open>Reading the world, and an example\<close>

text \<open>Byte \<open>i\<close> of the device at \<open>path\<close>, if there is one.\<close>

definition byte_at :: "world \<Rightarrow> string \<Rightarrow> nat \<Rightarrow> char option" where
  "byte_at w path i =
     (case nodes w path of
        None \<Rightarrow> None
      | Some bs \<Rightarrow> if i < length bs then Some (bs ! i) else None)"

text \<open>A small layout for the examples: a vendor space of 32 bytes that starts at byte 4,
  and the two flags of the Pixel devices.\<close>

definition example_layout :: layout where
  "example_layout =
     \<lparr>VENDOR_SPACE_OFFSET_IN_MISC = 4, WIPE_PACKAGE_OFFSET_IN_MISC = 36,
      kThemeFlagOffsetInVendorSpace = 0, kDarkThemeFlag = ''theme-dark'',
      kSotaFlagOffsetInVendorSpace = 16, kSotaFlag = ''enable-sota''\<rparr>"

text \<open>A world whose fstab names a misc device of 40 bytes.\<close>

definition example_world :: world where
  "example_world =
     \<lparr>g_misc_device_for_test = [],
      default_fstab = Some [\<lparr>mount_point = ''/data'', blk_device = ''/dev/block/data''\<rparr>,
                            \<lparr>mount_point = ''/misc'', blk_device = ''/dev/block/misc''\<rparr>],
      nodes = (\<lambda>path. if path = ''/dev/block/misc''
                       then Some ''........................................'' else None),
      io_trace = [],
      error_log = []\<rparr>"

section \<open>Properties\<close>

subsection \<open>Storing bytes\<close>

lemma length_store_bytes [simp]: "length (store_bytes dev pos buf) = length dev"
  by (auto simp: store_bytes_def)

lemma nth_store_bytes_outside:
  "i < length dev \<Longrightarrow> i < pos \<or> pos + length buf \<le> i \<Longrightarrow> store_bytes dev pos buf ! i = dev ! i"
  by (auto simp: store_bytes_def nth_append min_def)

lemma nth_store_bytes_inside:
  "pos \<le> i \<Longrightarrow> i < pos + length buf \<Longrightarrow> pos + length buf \<le> length dev \<Longrightarrow>
   store_bytes dev pos buf ! i = buf ! (i - pos)"
  by (auto simp: store_bytes_def nth_append min_def)

lemma store_bytes_Nil [simp]: "store_bytes dev pos [] = dev"
  by (simp add: store_bytes_def)

lemma store_bytes_again:
  assumes "pos + length buf \<le> length dev"
  shows "store_bytes (store_bytes dev pos buf) pos (take n buf) = store_bytes dev pos buf"
proof (rule nth_equalityI)
  show "length (store_bytes (store_bytes dev pos buf) pos (take n buf)) = length (store_bytes dev pos buf)"
    by simp
next
  fix i assume "i < length (store_bytes (store_bytes dev pos buf) pos (take n buf))"
  then have i: "i < length dev" by simp
  show "store_bytes (store_bytes dev pos buf) pos (take n buf) ! i = store_bytes dev pos buf ! i"
  proof (cases "pos \<le> i \<and> i < pos + length (take n buf)")
    case True
    then have "store_bytes (store_bytes dev pos buf) pos (take n buf) ! i = take n buf ! (i - pos)"
      using assms by (intro nth_store_bytes_inside) auto
    also have "\<dots> = buf ! (i - pos)" using True by auto
    also have "\<dots> = store_bytes dev pos buf ! i"
      using True assms by (intro nth_store_bytes_inside [symmetric]) auto
    finally show ?thesis .
  next
    case False
    then show ?thesis using i by (intro nth_store_bytes_outside) auto
  qed
qed

lemma nodes_emit [simp]: "nodes (emit e w) = nodes w"
  and fstab_emit [simp]: "default_fstab (emit e w) = default_fstab w"
  and g_emit [simp]: "g_misc_device_for_test (emit e w) = g_misc_device_for_test w"
  and log_emit [simp]: "error_log (emit e w) = error_log w"
  and trace_emit [simp]: "io_trace (emit e w) = io_trace w @ [e]"
  by (simp_all add: emit_def)

lemma byte_at_emit [simp]: "byte_at (emit e w) = byte_at w"
  by (simp add: byte_at_def fun_eq_iff)


subsection \<open>The system calls\<close>

lemma sint_nonneg_unat: "0 \<le> sint (x::size_t) \<Longrightarrow> sint x = int (unat x)"
proof -
  assume nonneg: "0 \<le> sint x"
  have "sint x < 2 ^ 64"
    using sint_lt [of x] by simp
  then have "take_bit 64 (sint x) = sint x"
    using nonneg by (simp add: take_bit_int_eq_self)
  then have "uint x = sint x"
    using uint_sint [of x] by simp
  then show ?thesis by (metis uint_nat)
qed

lemma sint_eq_minus1: "sint (x::size_t) = - 1 \<longleftrightarrow> x = - 1"
  using word_eq_iff_signed [of x "- 1", where ?'a = int] by simp

lemma sys_lseek_pass:
  assumes "sys_lseek f (sint (off::size_t)) fl w = (r, f')" and "r = sint off"
  shows "fd_path f' = fd_path f"
    and "off = - 1 \<Longrightarrow> fd_pos f' = fd_pos f"
    and "off \<noteq> - 1 \<Longrightarrow> fd_pos f' = unat off \<and> unat off \<le> dev_size w (fd_path f) \<and> \<not> lseek_fault fl"
proof -
  show "fd_path f' = fd_path f"
    using assms by (auto simp: sys_lseek_def split: if_splits)
  show "fd_pos f' = fd_pos f" if "off = - 1"
    using assms that by (auto simp: sys_lseek_def split: if_splits)
  show "fd_pos f' = unat off \<and> unat off \<le> dev_size w (fd_path f) \<and> \<not> lseek_fault fl"
    if "off \<noteq> - 1"
  proof -
    have "sint off \<noteq> - 1" using that by (simp add: sint_eq_minus1)
    with assms have ok: "\<not> lseek_fault fl" "0 \<le> sint off"
      "sint off \<le> int (dev_size w (fd_path f))" "f' = f\<lparr>fd_pos := nat (sint off)\<rparr>"
      by (auto simp: sys_lseek_def split: if_splits)
    from ok(2) have eq: "sint off = int (unat off)" by (rule sint_nonneg_unat)
    with ok(3) have "int (unat off) \<le> int (dev_size w (fd_path f))" by (simp only:)
    then have "unat off \<le> dev_size w (fd_path f)" by (simp only: of_nat_le_iff)
    moreover have "nat (sint off) = unat off" by (simp only: eq nat_int)
    ultimately show ?thesis using ok(1,4) by simp
  qed
qed

lemma sys_open_Some:
  "sys_open path fl w = Some f \<longleftrightarrow>
     \<not> open_fault fl \<and> (\<exists>bs. nodes w path = Some bs) \<and> f = \<lparr>fd_path = path, fd_pos = 0\<rparr>"
  by (auto simp: sys_open_def split: option.splits)

lemma WriteFully_effect:
  assumes "WriteFully f buf fl w = (ok, w')" and "nodes w (fd_path f) = Some bs"
  shows "\<exists>n. nodes w' = (nodes w)(fd_path f \<mapsto> store_bytes bs (fd_pos f) (take n buf)) \<and>
             (ok \<longrightarrow> n = length buf \<and> (buf \<noteq> [] \<longrightarrow> fd_pos f + length buf \<le> length bs))"
proof (cases "buf = []")
  case True
  with assms have "w' = w" "ok" by (auto simp: WriteFully_def)
  moreover have "(nodes w)(fd_path f \<mapsto> bs) = nodes w"
    using assms(2) by (rule fun_upd_idem)
  ultimately show ?thesis using True by (intro exI [of _ 0]) simp
next
  case False
  define room where "room = length bs - fd_pos f"
  define n where
    "n = min (length buf) (case write_fault fl of None \<Rightarrow> room | Some k \<Rightarrow> min k room)"
  have n_room: "n \<le> room"
    by (auto simp: n_def split: option.splits)
  have "WriteFully f buf fl w =
      (n = length buf,
       emit (EvWrite (fd_path f) (fd_pos f) (take n buf))
         (w\<lparr>nodes := (nodes w)(fd_path f \<mapsto> store_bytes bs (fd_pos f) (take n buf))\<rparr>))"
    using False assms(2) unfolding n_def room_def by (simp add: WriteFully_def Let_def)
  with assms(1)
  have w': "nodes w' = (nodes w)(fd_path f \<mapsto> store_bytes bs (fd_pos f) (take n buf))"
    and ok: "ok \<longleftrightarrow> n = length buf"
    by auto
  have "fd_pos f + length buf \<le> length bs" if "ok"
  proof -
    from that ok have "length buf \<le> room" using n_room by simp
    moreover have "0 < length buf" using False by simp
    ultimately show ?thesis unfolding room_def by arith
  qed
  with w' ok show ?thesis by blast
qed

lemma WriteFully_frame:
  assumes "WriteFully f buf fl w = (ok, w')"
  shows "g_misc_device_for_test w' = g_misc_device_for_test w"
    and "default_fstab w' = default_fstab w"
    and "error_log w' = error_log w"
  using assms by (auto simp: WriteFully_def Let_def split: option.splits if_splits)

subsection \<open>What a raw write does to the devices\<close>

lemma write_misc_partition_effect:
  assumes "write_misc_partition p sz dev off err fl w = (r, err', w')"
  shows "nodes w' = nodes w \<or>
         (\<exists>bs n. nodes w (c_str dev) = Some bs \<and>
            nodes w' = (nodes w)(c_str dev \<mapsto>
              store_bytes bs (if off = - 1 then 0 else unat off) (take n (take (unat sz) p))))"
proof (cases "sys_open (c_str dev) fl (emit (EvOpen (c_str dev)) w)")
  case None
  with assms show ?thesis by (auto simp: write_misc_partition_def Let_def)
next
  case (Some f)
  then obtain bs where bs: "nodes w (c_str dev) = Some bs"
    and f: "f = \<lparr>fd_path = c_str dev, fd_pos = 0\<rparr>"
    by (auto simp: sys_open_Some)
  obtain q f' where seek: "sys_lseek f (sint off) fl (emit (EvOpen (c_str dev)) w) = (q, f')"
    by (cases "sys_lseek f (sint off) fl (emit (EvOpen (c_str dev)) w)")
  show ?thesis
  proof (cases "q = sint off")
    case False
    with assms Some seek show ?thesis by (auto simp: write_misc_partition_def Let_def)
  next
    case True
    have path: "fd_path f' = c_str dev"
      using sys_lseek_pass(1) [OF seek True] f by simp
    have pos: "fd_pos f' = (if off = - 1 then 0 else unat off)"
      using sys_lseek_pass(2,3) [OF seek True] f by auto
    obtain ok w3 where wf: "WriteFully f' (take (unat sz) p) fl
        (emit (EvLseek (sint off)) (emit (EvOpen (c_str dev)) w)) = (ok, w3)"
      by (cases "WriteFully f' (take (unat sz) p) fl
        (emit (EvLseek (sint off)) (emit (EvOpen (c_str dev)) w))")
    from WriteFully_effect [OF wf, of bs] bs path pos
    obtain n where n: "nodes w3 = (nodes w)(c_str dev \<mapsto>
        store_bytes bs (if off = - 1 then 0 else unat off) (take n (take (unat sz) p)))"
      by auto
    have "nodes w' = nodes w3"
      using assms Some seek True wf
      by (auto simp: write_misc_partition_def Let_def split: if_splits)
    with n bs show ?thesis
      by (intro disjI2 exI [of _ bs] exI [of _ n]) simp
  qed
qed


subsection \<open>The bounds check\<close>

lemma in_vendor_space_words:
  "OffsetAndSizeInVendorSpace K offset sz \<longleftrightarrow>
     sz \<le> WIPE_PACKAGE_OFFSET_IN_MISC K - VENDOR_SPACE_OFFSET_IN_MISC K \<and>
     offset \<le> WIPE_PACKAGE_OFFSET_IN_MISC K - VENDOR_SPACE_OFFSET_IN_MISC K - sz"
  by (auto simp: OffsetAndSizeInVendorSpace_def Let_def)

lemma in_vendor_space_nat:
  "OffsetAndSizeInVendorSpace K offset sz \<longleftrightarrow>
     unat offset + unat sz \<le>
       unat (WIPE_PACKAGE_OFFSET_IN_MISC K - VENDOR_SPACE_OFFSET_IN_MISC K)"
  unfolding OffsetAndSizeInVendorSpace_def Let_def
  by (auto simp: word_le_nat_alt unat_sub)

lemma wrapped_sum_beyond_capacity:
  "WIPE_PACKAGE_OFFSET_IN_MISC K - VENDOR_SPACE_OFFSET_IN_MISC K < offset + sz \<Longrightarrow>
     \<not> OffsetAndSizeInVendorSpace K offset sz"
  unfolding in_vendor_space_nat
  by (simp add: word_less_nat_alt unat_word_ariths)

text \<open>
  Claim C1. With \<open>capacity = WIPE_PACKAGE_OFFSET_IN_MISC - VENDOR_SPACE_OFFSET_IN_MISC\<close>,
  the bounds check accepts exactly the pairs with \<open>size \<le> capacity\<close> and
  \<open>offset \<le> capacity - size\<close>. These are exactly the pairs whose sum, taken in the
  natural numbers, is at most the capacity, so the wrap-around of unsigned arithmetic
  plays no part: a size above the capacity is refused, a pair whose sum is above the
  capacity is refused whether the sum is taken exactly or in 64 bits, and the subtraction
  \<open>capacity - size\<close> is exact whenever \<open>size \<le> capacity\<close>, the only case in which the
  code evaluates it.
\<close>

theorem OffsetAndSizeInVendorSpace_exact:
  "(let capacity = WIPE_PACKAGE_OFFSET_IN_MISC K - VENDOR_SPACE_OFFSET_IN_MISC K in
      (OffsetAndSizeInVendorSpace K offset sz \<longleftrightarrow> sz \<le> capacity \<and> offset \<le> capacity - sz) \<and>
      (OffsetAndSizeInVendorSpace K offset sz \<longleftrightarrow> unat offset + unat sz \<le> unat capacity) \<and>
      (capacity < sz \<longrightarrow> \<not> OffsetAndSizeInVendorSpace K offset sz) \<and>
      (unat capacity < unat offset + unat sz \<longrightarrow> \<not> OffsetAndSizeInVendorSpace K offset sz) \<and>
      (capacity < offset + sz \<longrightarrow> \<not> OffsetAndSizeInVendorSpace K offset sz) \<and>
      (sz \<le> capacity \<longrightarrow> unat (capacity - sz) = unat capacity - unat sz))"
proof -
  have "\<not> OffsetAndSizeInVendorSpace K offset sz"
    if "WIPE_PACKAGE_OFFSET_IN_MISC K - VENDOR_SPACE_OFFSET_IN_MISC K < sz"
    using that by (auto simp: in_vendor_space_words)
  moreover have "\<not> OffsetAndSizeInVendorSpace K offset sz"
    if "unat (WIPE_PACKAGE_OFFSET_IN_MISC K - VENDOR_SPACE_OFFSET_IN_MISC K)
          < unat offset + unat sz"
    using that by (simp add: in_vendor_space_nat)
  moreover have "unat (WIPE_PACKAGE_OFFSET_IN_MISC K - VENDOR_SPACE_OFFSET_IN_MISC K - sz) =
      unat (WIPE_PACKAGE_OFFSET_IN_MISC K - VENDOR_SPACE_OFFSET_IN_MISC K) - unat sz"
    if "sz \<le> WIPE_PACKAGE_OFFSET_IN_MISC K - VENDOR_SPACE_OFFSET_IN_MISC K"
    using that by (rule unat_sub)
  ultimately show ?thesis
    unfolding Let_def
    using in_vendor_space_words [of K offset sz] in_vendor_space_nat [of K offset sz]
      wrapped_sum_beyond_capacity [of K offset sz]
    by blast
qed

theorem OffsetAndSizeInVendorSpace_exact_witness:
  "OffsetAndSizeInVendorSpace example_layout 22 10 \<and>
   \<not> OffsetAndSizeInVendorSpace example_layout 23 10 \<and>
   \<not> OffsetAndSizeInVendorSpace example_layout 0 33 \<and>
   \<not> OffsetAndSizeInVendorSpace example_layout (- 5) 10"
  using OffsetAndSizeInVendorSpace_exact [of example_layout 22 10]
    OffsetAndSizeInVendorSpace_exact [of example_layout 23 10]
    OffsetAndSizeInVendorSpace_exact [of example_layout 0 33]
    OffsetAndSizeInVendorSpace_exact [of example_layout "- 5" 10]
  by (simp add: example_layout_def Let_def)

lemma vendor_plus_capacity:
  "VENDOR_SPACE_OFFSET_IN_MISC K +
     (WIPE_PACKAGE_OFFSET_IN_MISC K - VENDOR_SPACE_OFFSET_IN_MISC K) =
   WIPE_PACKAGE_OFFSET_IN_MISC K"
  by simp

lemma example_resolves:
  "get_misc_blk_device err example_world =
     (''/dev/block/misc'', err, emit EvReadDefaultFstab example_world)"
  by (simp add: get_misc_blk_device_def example_world_def Let_def)

text \<open>
  Claim C10. For a size of 0 the bounds check accepts every offset up to the capacity,
  the capacity itself included, and a zero-length request at that offset goes on to the
  resolution of the device and to the raw writer, which is handed the absolute offset
  \<open>WIPE_PACKAGE_OFFSET_IN_MISC\<close>, the exclusive end of the vendor space.
\<close>

theorem zero_size_at_capacity_proceeds:
  "(OffsetAndSizeInVendorSpace K offset 0 \<longleftrightarrow>
      offset \<le> WIPE_PACKAGE_OFFSET_IN_MISC K - VENDOR_SPACE_OFFSET_IN_MISC K) \<and>
   OffsetAndSizeInVendorSpace K
      (WIPE_PACKAGE_OFFSET_IN_MISC K - VENDOR_SPACE_OFFSET_IN_MISC K) 0 \<and>
   WriteMiscPartitionVendorSpace K data 0
      (WIPE_PACKAGE_OFFSET_IN_MISC K - VENDOR_SPACE_OFFSET_IN_MISC K) err fl w =
     (let (misc_blk_device, err1, w1) = get_misc_blk_device err w
      in if misc_blk_device = [] then (False, err1, w1)
         else write_misc_partition data 0 misc_blk_device
                (WIPE_PACKAGE_OFFSET_IN_MISC K) err1 fl w1)"
proof -
  have check: "OffsetAndSizeInVendorSpace K offset 0 \<longleftrightarrow>
      offset \<le> WIPE_PACKAGE_OFFSET_IN_MISC K - VENDOR_SPACE_OFFSET_IN_MISC K" for offset
    by (simp add: OffsetAndSizeInVendorSpace_def Let_def)
  then have "OffsetAndSizeInVendorSpace K
      (WIPE_PACKAGE_OFFSET_IN_MISC K - VENDOR_SPACE_OFFSET_IN_MISC K) 0"
    by simp
  then show ?thesis
    using check [of offset]
    by (simp only: WriteMiscPartitionVendorSpace_def vendor_plus_capacity) simp
qed

theorem zero_size_at_capacity_proceeds_witness:
  "OffsetAndSizeInVendorSpace example_layout 32 0 \<and>
   WriteMiscPartitionVendorSpace example_layout [] 0 32 [] no_faults example_world =
     write_misc_partition [] 0 ''/dev/block/misc'' 36 []  no_faults
       (emit EvReadDefaultFstab example_world)"
  using zero_size_at_capacity_proceeds [of example_layout 32 "[]" "[]" no_faults example_world]
  by (simp add: example_resolves) (simp add: example_layout_def)

subsection \<open>The dispatcher\<close>

text \<open>
  Claim C4. With the action \<open>kUnset\<close>, whatever the override, \<open>PerformAction\<close> returns
  failure at once: the only change to the world is the line sent to the error log; no
  system call is made, and no device changes.
\<close>

theorem PerformAction_unset_no_io:
  "PerformAction K kUnset override_offset fl w =
     (False, w\<lparr>error_log := error_log w @ [''The misc writer action must be set'']\<rparr>) \<and>
   io_trace (snd (PerformAction K kUnset override_offset fl w)) = io_trace w \<and>
   nodes (snd (PerformAction K kUnset override_offset fl w)) = nodes w"
  by (simp add: PerformAction_def log_error_def)

theorem PerformAction_unset_no_io_witness:
  "fst (PerformAction example_layout kUnset (Some 7) no_faults example_world) = False \<and>
   io_trace (snd (PerformAction example_layout kUnset (Some 7) no_faults example_world)) = [] \<and>
   nodes (snd (PerformAction example_layout kUnset (Some 7) no_faults example_world))
     ''/dev/block/misc'' = Some ''........................................''"
  using PerformAction_unset_no_io [of example_layout "Some 7" no_faults example_world]
  by (simp add: example_world_def)

text \<open>
  Claim C7. For the dark-theme flag and for the sota flag, the clear action selects a
  buffer of the length of the content the set action selects, every byte of it zero,
  and both actions have the same default offset, that of the flag.
\<close>

theorem clear_is_zeroed_set:
  assumes "(set_action, clear_action) = (kSetDarkThemeFlag, kClearDarkThemeFlag) \<or>
           (set_action, clear_action) = (kSetSotaFlag, kClearSotaFlag)"
  shows "\<exists>offset content zeros.
           action_switch K set_action None = Some (offset, content) \<and>
           action_switch K clear_action None = Some (offset, zeros) \<and>
           length zeros = length content \<and>
           (\<forall>i < length zeros. zeros ! i = NUL) \<and>
           zeros = replicate (length content) NUL \<and>
           offset = (if set_action = kSetDarkThemeFlag then kThemeFlagOffsetInVendorSpace K
                     else kSotaFlagOffsetInVendorSpace K)"
  using assms by (auto simp: strlen_def value_or_def)

theorem clear_is_zeroed_set_witness:
  "action_switch example_layout kSetDarkThemeFlag None = Some (0, ''theme-dark'') \<and>
   action_switch example_layout kClearDarkThemeFlag None = Some (0, replicate 10 NUL) \<and>
   action_switch example_layout kSetSotaFlag None = Some (16, ''enable-sota'') \<and>
   action_switch example_layout kClearSotaFlag None = Some (16, replicate 11 NUL)"
  using clear_is_zeroed_set [of kSetDarkThemeFlag kClearDarkThemeFlag example_layout]
    clear_is_zeroed_set [of kSetSotaFlag kClearSotaFlag example_layout]
  by (simp add: example_layout_def value_or_def c_str_def NUL_def strlen_def eval_nat_numeral)

subsection \<open>Resolving the device\<close>

lemma scan_fstab_find:
  "scan_fstab fstab = map_option blk_device (find (\<lambda>entry. mount_point entry = ''/misc'') fstab)"
  by (induction fstab) simp_all

lemma scan_fstab_None:
  "scan_fstab fstab = None \<longleftrightarrow> (\<forall>entry \<in> set fstab. mount_point entry \<noteq> ''/misc'')"
  by (induction fstab) simp_all

text \<open>
  Claim C8. \<open>get_misc_blk_device\<close> returns the test override whenever it is not empty,
  without reading the fstab; \<open>SetMiscBlockDeviceForTest\<close> stores its argument, so a
  non-empty argument is what the next resolution returns and the empty string sends the
  next resolution back to the fstab. Without an override it returns the \<open>blk_device\<close> of
  the first entry of the default fstab whose mount point is \<open>/misc\<close>, and it sets the
  diagnostic, returning the empty path, exactly when the fstab cannot be read or has
  no such entry.
\<close>

theorem get_misc_blk_device_resolution:
  "get_misc_blk_device err w =
     (if g_misc_device_for_test w \<noteq> [] then (g_misc_device_for_test w, err, w)
      else case default_fstab w of
             None \<Rightarrow> ([], ''failed to read default fstab'', emit EvReadDefaultFstab w)
           | Some fstab \<Rightarrow>
               (case find (\<lambda>entry. mount_point entry = ''/misc'') fstab of
                  Some entry \<Rightarrow> (blk_device entry, err, emit EvReadDefaultFstab w)
                | None \<Rightarrow> ([], ''failed to find /misc partition'', emit EvReadDefaultFstab w))) \<and>
   g_misc_device_for_test (SetMiscBlockDeviceForTest misc_device w) = misc_device \<and>
   default_fstab (SetMiscBlockDeviceForTest misc_device w) = default_fstab w \<and>
   (misc_device \<noteq> [] \<longrightarrow>
      get_misc_blk_device err (SetMiscBlockDeviceForTest misc_device w) =
        (misc_device, err, SetMiscBlockDeviceForTest misc_device w)) \<and>
   (g_misc_device_for_test w = [] \<longrightarrow>
      (fst (snd (get_misc_blk_device [] w)) \<noteq> [] \<longleftrightarrow>
         default_fstab w = None \<or>
         (\<exists>fstab. default_fstab w = Some fstab \<and>
            (\<forall>entry \<in> set fstab. mount_point entry \<noteq> ''/misc''))) \<and>
      (fst (snd (get_misc_blk_device [] w)) \<noteq> [] \<longrightarrow> fst (get_misc_blk_device [] w) = []))"
proof -
  have "get_misc_blk_device err w =
     (if g_misc_device_for_test w \<noteq> [] then (g_misc_device_for_test w, err, w)
      else case default_fstab w of
             None \<Rightarrow> ([], ''failed to read default fstab'', emit EvReadDefaultFstab w)
           | Some fstab \<Rightarrow>
               (case find (\<lambda>entry. mount_point entry = ''/misc'') fstab of
                  Some entry \<Rightarrow> (blk_device entry, err, emit EvReadDefaultFstab w)
                | None \<Rightarrow> ([], ''failed to find /misc partition'', emit EvReadDefaultFstab w)))"
    by (simp add: get_misc_blk_device_def Let_def scan_fstab_find split: option.splits)
  moreover have "get_misc_blk_device err (SetMiscBlockDeviceForTest misc_device w) =
        (misc_device, err, SetMiscBlockDeviceForTest misc_device w)" if "misc_device \<noteq> []"
    using that by (simp add: get_misc_blk_device_def SetMiscBlockDeviceForTest_def)
  moreover have "fst (snd (get_misc_blk_device [] w)) \<noteq> [] \<longleftrightarrow>
         default_fstab w = None \<or>
         (\<exists>fstab. default_fstab w = Some fstab \<and>
            (\<forall>entry \<in> set fstab. mount_point entry \<noteq> ''/misc''))"
    if "g_misc_device_for_test w = []"
    using that
    by (auto simp: get_misc_blk_device_def Let_def scan_fstab_None [symmetric]
        split: option.splits)
  moreover have "fst (get_misc_blk_device [] w) = []"
    if "fst (snd (get_misc_blk_device [] w)) \<noteq> []"
    using that by (auto simp: get_misc_blk_device_def Let_def split: option.splits if_splits)
  ultimately show ?thesis
    by (simp add: SetMiscBlockDeviceForTest_def)
qed

theorem get_misc_blk_device_resolution_witness:
  "get_misc_blk_device [] (SetMiscBlockDeviceForTest ''/tmp/misc'' example_world) =
     (''/tmp/misc'', [], SetMiscBlockDeviceForTest ''/tmp/misc'' example_world) \<and>
   fst (get_misc_blk_device []
          (SetMiscBlockDeviceForTest [] (SetMiscBlockDeviceForTest ''/tmp/misc'' example_world))) =
     ''/dev/block/misc'' \<and>
   fst (snd (get_misc_blk_device [] (example_world\<lparr>default_fstab := None\<rparr>))) =
     ''failed to read default fstab'' \<and>
   fst (snd (get_misc_blk_device [] (example_world\<lparr>default_fstab := Some []\<rparr>))) =
     ''failed to find /misc partition''"
  using
    get_misc_blk_device_resolution [of "[]" example_world "''/tmp/misc''"]
    get_misc_blk_device_resolution [of "[]"
      "SetMiscBlockDeviceForTest [] (SetMiscBlockDeviceForTest ''/tmp/misc'' example_world)" "[]"]
    get_misc_blk_device_resolution [of "[]" "example_world\<lparr>default_fstab := None\<rparr>" "[]"]
    get_misc_blk_device_resolution [of "[]" "example_world\<lparr>default_fstab := Some []\<rparr>" "[]"]
  by (simp add: example_world_def SetMiscBlockDeviceForTest_def)

subsection \<open>More on the raw write\<close>

lemma write_misc_partition_frame:
  assumes "write_misc_partition p sz dev off err fl w = (r, err', w')"
  shows "g_misc_device_for_test w' = g_misc_device_for_test w"
    and "default_fstab w' = default_fstab w"
    and "error_log w' = error_log w"
proof -
  have "g_misc_device_for_test w' = g_misc_device_for_test w \<and>
        default_fstab w' = default_fstab w \<and> error_log w' = error_log w"
  proof (cases "sys_open (c_str dev) fl (emit (EvOpen (c_str dev)) w)")
    case None
    with assms show ?thesis by (auto simp: write_misc_partition_def Let_def)
  next
    case (Some f)
    obtain q f' where seek: "sys_lseek f (sint off) fl (emit (EvOpen (c_str dev)) w) = (q, f')"
      by (cases "sys_lseek f (sint off) fl (emit (EvOpen (c_str dev)) w)")
    obtain ok w3 where wf: "WriteFully f' (take (unat sz) p) fl
        (emit (EvLseek (sint off)) (emit (EvOpen (c_str dev)) w)) = (ok, w3)"
      by (cases "WriteFully f' (take (unat sz) p) fl
        (emit (EvLseek (sint off)) (emit (EvOpen (c_str dev)) w))")
    from WriteFully_frame [OF wf] assms Some seek wf show ?thesis
      by (auto simp: write_misc_partition_def Let_def split: if_splits)
  qed
  then show "g_misc_device_for_test w' = g_misc_device_for_test w"
    and "default_fstab w' = default_fstab w"
    and "error_log w' = error_log w"
    by simp_all
qed

lemma write_misc_partition_success:
  assumes "write_misc_partition p sz dev off err fl w = (True, err', w')"
  shows "err' = err"
    and "\<exists>bs. nodes w (c_str dev) = Some bs \<and>
           (if off = - 1 then 0 else unat off) + length (take (unat sz) p) \<le> length bs \<and>
           nodes w' = (nodes w)(c_str dev \<mapsto>
             store_bytes bs (if off = - 1 then 0 else unat off) (take (unat sz) p))"
proof -
  obtain f where opened: "sys_open (c_str dev) fl (emit (EvOpen (c_str dev)) w) = Some f"
    using assms
    by (cases "sys_open (c_str dev) fl (emit (EvOpen (c_str dev)) w)")
       (auto simp: write_misc_partition_def Let_def)
  then obtain bs where bs: "nodes w (c_str dev) = Some bs"
    and f: "f = \<lparr>fd_path = c_str dev, fd_pos = 0\<rparr>"
    by (auto simp: sys_open_Some)
  obtain q f' where seek: "sys_lseek f (sint off) fl (emit (EvOpen (c_str dev)) w) = (q, f')"
    by (cases "sys_lseek f (sint off) fl (emit (EvOpen (c_str dev)) w)")
  obtain ok w3 where wf: "WriteFully f' (take (unat sz) p) fl
      (emit (EvLseek (sint off)) (emit (EvOpen (c_str dev)) w)) = (ok, w3)"
    by (cases "WriteFully f' (take (unat sz) p) fl
      (emit (EvLseek (sint off)) (emit (EvOpen (c_str dev)) w))")
  have pass: "q = sint off" and ok: "ok" and w': "nodes w' = nodes w3" and err: "err' = err"
    using assms opened seek wf
    by (auto simp: write_misc_partition_def Let_def split: if_splits)
  show "err' = err" by (fact err)
  have path: "fd_path f' = c_str dev"
    using sys_lseek_pass(1) [OF seek pass] f by simp
  have pos: "fd_pos f' = (if off = - 1 then 0 else unat off)"
    using sys_lseek_pass(2,3) [OF seek pass] f by auto
  have within: "(if off = - 1 then 0 else unat off) \<le> length bs"
    using sys_lseek_pass(3) [OF seek pass] f bs by (auto simp: dev_size_def)
  define buf where "buf = take (unat sz) p"
  define at where "at = (if off = - 1 then 0 else unat off)"
  have wf': "WriteFully f' buf fl
      (emit (EvLseek (sint off)) (emit (EvOpen (c_str dev)) w)) = (True, w3)"
    using wf ok by (simp only: buf_def)
  have bs': "nodes (emit (EvLseek (sint off)) (emit (EvOpen (c_str dev)) w)) (fd_path f') = Some bs"
    using bs path by simp
  from WriteFully_effect [OF wf' bs']
  obtain n where n: "nodes w3 =
      (nodes (emit (EvLseek (sint off)) (emit (EvOpen (c_str dev)) w)))
        (fd_path f' \<mapsto> store_bytes bs (fd_pos f') (take n buf))"
    and full: "n = length buf" and fits: "buf \<noteq> [] \<longrightarrow> fd_pos f' + length buf \<le> length bs"
    by blast
  have stored: "nodes w3 = (nodes w)(c_str dev \<mapsto> store_bytes bs at buf)"
    using n full path pos by (simp add: at_def)
  have "at + length buf \<le> length bs"
  proof (cases "buf = []")
    case True
    with within show ?thesis by (simp add: at_def)
  next
    case False
    with fits pos show ?thesis by (simp add: at_def)
  qed
  with bs stored w'
  show "\<exists>bs. nodes w (c_str dev) = Some bs \<and>
           (if off = - 1 then 0 else unat off) + length (take (unat sz) p) \<le> length bs \<and>
           nodes w' = (nodes w)(c_str dev \<mapsto>
             store_bytes bs (if off = - 1 then 0 else unat off) (take (unat sz) p))"
    unfolding buf_def at_def by (intro exI [of _ bs]) simp
qed

subsection \<open>Writes into the vendor space\<close>

lemma get_misc_blk_device_frame:
  assumes "get_misc_blk_device err w = (dev, err', w')"
  shows "nodes w' = nodes w"
    and "g_misc_device_for_test w' = g_misc_device_for_test w"
    and "default_fstab w' = default_fstab w"
    and "error_log w' = error_log w"
  using assms
  by (auto simp: get_misc_blk_device_def Let_def split: if_splits option.splits)

lemma get_misc_blk_device_same_path:
  assumes "g_misc_device_for_test w' = g_misc_device_for_test w"
    and "default_fstab w' = default_fstab w"
  shows "fst (get_misc_blk_device err' w') = fst (get_misc_blk_device err w)"
  using assms
  by (auto simp: get_misc_blk_device_def Let_def split: if_splits option.splits)

lemma vendor_offset_no_wrap:
  assumes "VENDOR_SPACE_OFFSET_IN_MISC K \<le> WIPE_PACKAGE_OFFSET_IN_MISC K"
    and "OffsetAndSizeInVendorSpace K offset sz"
  shows "unat (VENDOR_SPACE_OFFSET_IN_MISC K + offset) =
           unat (VENDOR_SPACE_OFFSET_IN_MISC K) + unat offset"
    and "unat (VENDOR_SPACE_OFFSET_IN_MISC K) + unat offset + unat sz \<le>
           unat (WIPE_PACKAGE_OFFSET_IN_MISC K)"
proof -
  have cap: "unat (WIPE_PACKAGE_OFFSET_IN_MISC K - VENDOR_SPACE_OFFSET_IN_MISC K) =
      unat (WIPE_PACKAGE_OFFSET_IN_MISC K) - unat (VENDOR_SPACE_OFFSET_IN_MISC K)"
    using assms(1) by (rule unat_sub)
  have "unat (VENDOR_SPACE_OFFSET_IN_MISC K) \<le> unat (WIPE_PACKAGE_OFFSET_IN_MISC K)"
    using assms(1) by (simp add: word_le_nat_alt)
  with assms(2) cap
  show bound: "unat (VENDOR_SPACE_OFFSET_IN_MISC K) + unat offset + unat sz \<le>
           unat (WIPE_PACKAGE_OFFSET_IN_MISC K)"
    by (simp add: in_vendor_space_nat)
  have "unat (WIPE_PACKAGE_OFFSET_IN_MISC K) < 2 ^ 64"
    using unsigned_less [of "WIPE_PACKAGE_OFFSET_IN_MISC K", where ?'a = nat] by simp
  with bound have "unat (VENDOR_SPACE_OFFSET_IN_MISC K) + unat offset < 2 ^ LENGTH(64)"
    by simp
  then show "unat (VENDOR_SPACE_OFFSET_IN_MISC K + offset) =
           unat (VENDOR_SPACE_OFFSET_IN_MISC K) + unat offset"
    by (simp only: unat_add_lem)
qed

lemma byte_at_stored:
  assumes "nodes w' = (nodes w)(p \<mapsto> store_bytes bs pos buf)" and "nodes w p = Some bs"
    and "path \<noteq> p \<or> i < pos \<or> pos + length buf \<le> i"
  shows "byte_at w' path i = byte_at w path i"
  using assms by (auto simp: byte_at_def nth_store_bytes_outside)

lemma byte_at_same_nodes: "nodes w' = nodes w \<Longrightarrow> byte_at w' path i = byte_at w path i"
  by (simp add: byte_at_def)

lemma vendor_write_changes_only_range:
  assumes layout: "VENDOR_SPACE_OFFSET_IN_MISC K \<le> WIPE_PACKAGE_OFFSET_IN_MISC K"
    and call: "WriteMiscPartitionVendorSpace K data sz offset err fl w = (r, err', w')"
    and changed: "byte_at w' path i \<noteq> byte_at w path i"
  shows "OffsetAndSizeInVendorSpace K offset sz \<and>
         path = c_str (fst (get_misc_blk_device err w)) \<and>
         unat (VENDOR_SPACE_OFFSET_IN_MISC K) + unat offset \<le> i \<and>
         i < unat (VENDOR_SPACE_OFFSET_IN_MISC K) + unat offset + unat sz"
proof -
  obtain dev err1 w1 where res: "get_misc_blk_device err w = (dev, err1, w1)"
    by (cases "get_misc_blk_device err w")
  have w1: "nodes w1 = nodes w"
    by (rule get_misc_blk_device_frame(1) [OF res])
  have inb: "OffsetAndSizeInVendorSpace K offset sz"
  proof (rule ccontr)
    assume "\<not> OffsetAndSizeInVendorSpace K offset sz"
    with call have "w' = w" by (simp add: WriteMiscPartitionVendorSpace_def)
    with changed show False by simp
  qed
  have dev: "dev \<noteq> []"
  proof
    assume "dev = []"
    with call inb res have "w' = w1" by (simp add: WriteMiscPartitionVendorSpace_def)
    with w1 changed show False by (simp add: byte_at_def)
  qed
  define target where "target = VENDOR_SPACE_OFFSET_IN_MISC K + offset"
  have raw: "write_misc_partition data sz dev target err1 fl w1 = (r, err', w')"
    using call inb res dev by (simp add: WriteMiscPartitionVendorSpace_def target_def)
  have target: "unat target = unat (VENDOR_SPACE_OFFSET_IN_MISC K) + unat offset"
    and top: "unat (VENDOR_SPACE_OFFSET_IN_MISC K) + unat offset + unat sz \<le>
      unat (WIPE_PACKAGE_OFFSET_IN_MISC K)"
    using vendor_offset_no_wrap [OF layout inb] by (simp_all add: target_def)
  have moved: "nodes w' \<noteq> nodes w1"
    using changed w1 by (auto simp: byte_at_def)
  have "\<exists>bs n. nodes w1 (c_str dev) = Some bs \<and>
          nodes w' = (nodes w1)(c_str dev \<mapsto>
            store_bytes bs (if target = - 1 then 0 else unat target) (take n (take (unat sz) data)))"
  proof (rule disjE [OF write_misc_partition_effect [OF raw]])
    assume "nodes w' = nodes w1"
    with moved show ?thesis by (rule notE)
  next
    assume "\<exists>bs n. nodes w1 (c_str dev) = Some bs \<and>
          nodes w' = (nodes w1)(c_str dev \<mapsto>
            store_bytes bs (if target = - 1 then 0 else unat target) (take n (take (unat sz) data)))"
    then show ?thesis .
  qed
  then obtain bs n where bs: "nodes w1 (c_str dev) = Some bs"
    and stored: "nodes w' = (nodes w1)(c_str dev \<mapsto>
        store_bytes bs (if target = - 1 then 0 else unat target) (take n (take (unat sz) data)))"
    by (elim exE conjE)
  have not_last: "target \<noteq> - 1"
  proof
    assume last: "target = - 1"
    have "unat (WIPE_PACKAGE_OFFSET_IN_MISC K) < 2 ^ 64"
      using unsigned_less [of "WIPE_PACKAGE_OFFSET_IN_MISC K", where ?'a = nat] by simp
    moreover have "unat target = 2 ^ 64 - 1"
      using last by (simp add: unsigned_minus_1_eq_mask mask_eq_exp_minus_1)
    ultimately have "unat sz = 0"
      using target top by simp
    with stored have "nodes w' = (nodes w1)(c_str dev \<mapsto> bs)" by simp
    also have "\<dots> = nodes w1" using bs by (rule fun_upd_idem)
    finally show False using moved by simp
  qed
  have len: "length (take n (take (unat sz) data)) \<le> unat sz"
    by simp
  have stored': "nodes w' = (nodes w1)(c_str dev \<mapsto>
      store_bytes bs (unat target) (take n (take (unat sz) data)))"
    using stored not_last by (simp only: if_False)
  have inside: "\<not> (path \<noteq> c_str dev \<or> i < unat target \<or>
            unat target + length (take n (take (unat sz) data)) \<le> i)"
  proof
    assume "path \<noteq> c_str dev \<or> i < unat target \<or>
            unat target + length (take n (take (unat sz) data)) \<le> i"
    then have "byte_at w' path i = byte_at w1 path i"
      by (rule byte_at_stored [OF stored' bs])
    also have "\<dots> = byte_at w path i"
      using w1 by (rule byte_at_same_nodes)
    finally show False using changed by simp
  qed
  then have "path = c_str dev" and "unat target \<le> i"
    and "i < unat target + length (take n (take (unat sz) data))"
    by simp_all
  moreover from this(3) len have "i < unat target + unat sz"
    by (simp only: less_le_trans add_left_mono)
  moreover have "fst (get_misc_blk_device err w) = dev"
    using res by simp
  ultimately show ?thesis
    using inb target by simp
qed



text \<open>
  Claim C2. Let the vendor space not end before it starts. A call of
  \<open>WriteMiscPartitionVendorSpace\<close> that passes the bounds check and resolves a
  non-empty device path is a call of \<open>write_misc_partition\<close> at the absolute offset
  \<open>VENDOR_SPACE_OFFSET_IN_MISC + offset\<close>; this sum does not wrap, and the range of
  \<open>size\<close> bytes from it ends at or before \<open>WIPE_PACKAGE_OFFSET_IN_MISC\<close>. Whatever
  the call returns, every byte of every device that differs after the call lies on the
  resolved device, inside that range, and the call reached the raw writer.
\<close>

theorem vendor_space_write_confined:
  assumes "VENDOR_SPACE_OFFSET_IN_MISC K \<le> WIPE_PACKAGE_OFFSET_IN_MISC K"
  shows "(OffsetAndSizeInVendorSpace K offset sz \<and> fst (get_misc_blk_device err w) \<noteq> [] \<longrightarrow>
            (case get_misc_blk_device err w of
               (misc_blk_device, err1, w1) \<Rightarrow>
                 WriteMiscPartitionVendorSpace K data sz offset err fl w =
                   write_misc_partition data sz misc_blk_device
                     (VENDOR_SPACE_OFFSET_IN_MISC K + offset) err1 fl w1) \<and>
            unat (VENDOR_SPACE_OFFSET_IN_MISC K + offset) =
              unat (VENDOR_SPACE_OFFSET_IN_MISC K) + unat offset \<and>
            unat (VENDOR_SPACE_OFFSET_IN_MISC K) + unat offset + unat sz \<le>
              unat (WIPE_PACKAGE_OFFSET_IN_MISC K)) \<and>
         (\<forall>path i.
            byte_at (snd (snd (WriteMiscPartitionVendorSpace K data sz offset err fl w))) path i \<noteq>
              byte_at w path i \<longrightarrow>
            OffsetAndSizeInVendorSpace K offset sz \<and>
            path = c_str (fst (get_misc_blk_device err w)) \<and>
            unat (VENDOR_SPACE_OFFSET_IN_MISC K) + unat offset \<le> i \<and>
            i < unat (VENDOR_SPACE_OFFSET_IN_MISC K) + unat offset + unat sz)"
proof (intro conjI impI allI)
  assume reach: "OffsetAndSizeInVendorSpace K offset sz \<and> fst (get_misc_blk_device err w) \<noteq> []"
  then show "case get_misc_blk_device err w of
               (misc_blk_device, err1, w1) \<Rightarrow>
                 WriteMiscPartitionVendorSpace K data sz offset err fl w =
                   write_misc_partition data sz misc_blk_device
                     (VENDOR_SPACE_OFFSET_IN_MISC K + offset) err1 fl w1"
    by (auto simp: WriteMiscPartitionVendorSpace_def split: prod.splits)
  from reach show "unat (VENDOR_SPACE_OFFSET_IN_MISC K + offset) =
              unat (VENDOR_SPACE_OFFSET_IN_MISC K) + unat offset"
    using vendor_offset_no_wrap(1) [OF assms] by blast
  from reach show "unat (VENDOR_SPACE_OFFSET_IN_MISC K) + unat offset + unat sz \<le>
              unat (WIPE_PACKAGE_OFFSET_IN_MISC K)"
    using vendor_offset_no_wrap(2) [OF assms] by blast
next
  fix path i
  assume changed:
    "byte_at (snd (snd (WriteMiscPartitionVendorSpace K data sz offset err fl w))) path i \<noteq>
       byte_at w path i"
  obtain r err' w' where call:
    "WriteMiscPartitionVendorSpace K data sz offset err fl w = (r, err', w')"
    by (cases "WriteMiscPartitionVendorSpace K data sz offset err fl w")
  with changed have "byte_at w' path i \<noteq> byte_at w path i" by simp
  from vendor_write_changes_only_range [OF assms call this]
  show "OffsetAndSizeInVendorSpace K offset sz"
    and "path = c_str (fst (get_misc_blk_device err w))"
    and "unat (VENDOR_SPACE_OFFSET_IN_MISC K) + unat offset \<le> i"
    and "i < unat (VENDOR_SPACE_OFFSET_IN_MISC K) + unat offset + unat sz"
    by simp_all
qed


lemma example_write_dark:
  "WriteMiscPartitionVendorSpace example_layout ''theme-dark'' 10 0 [] no_faults example_world =
     (True, [],
      example_world
        \<lparr>nodes := (nodes example_world)(''/dev/block/misc'' \<mapsto>
                     ''....theme-dark..........................''),
         io_trace := [EvReadDefaultFstab, EvOpen ''/dev/block/misc'', EvLseek 4,
                      EvWrite ''/dev/block/misc'' 4 ''theme-dark'',
                      EvFsync ''/dev/block/misc'', EvClose ''/dev/block/misc'']\<rparr>)"
  by (simp add: WriteMiscPartitionVendorSpace_def OffsetAndSizeInVendorSpace_def
      get_misc_blk_device_def write_misc_partition_def sys_open_def sys_lseek_def dev_size_def
      WriteFully_def sys_fsync_def store_bytes_def emit_def c_str_def NUL_def Let_def
      example_layout_def example_world_def no_faults_def)


theorem vendor_space_write_confined_witness:
  "VENDOR_SPACE_OFFSET_IN_MISC example_layout \<le> WIPE_PACKAGE_OFFSET_IN_MISC example_layout \<and>
   OffsetAndSizeInVendorSpace example_layout 0 10 \<and>
   WriteMiscPartitionVendorSpace example_layout ''theme-dark'' 10 0 [] no_faults example_world =
     write_misc_partition ''theme-dark'' 10 ''/dev/block/misc'' 4 [] no_faults
       (emit EvReadDefaultFstab example_world) \<and>
   byte_at (snd (snd (WriteMiscPartitionVendorSpace example_layout ''theme-dark'' 10 0 []
       no_faults example_world))) ''/dev/block/misc'' 3 =
     byte_at example_world ''/dev/block/misc'' 3 \<and>
   byte_at (snd (snd (WriteMiscPartitionVendorSpace example_layout ''theme-dark'' 10 0 []
       no_faults example_world))) ''/dev/block/misc'' 4 = Some CHR ''t''"
proof -
  have layout: "VENDOR_SPACE_OFFSET_IN_MISC example_layout \<le>
      WIPE_PACKAGE_OFFSET_IN_MISC example_layout"
    by (simp add: example_layout_def)
  have reach: "OffsetAndSizeInVendorSpace example_layout 0 10"
    by (simp add: OffsetAndSizeInVendorSpace_def example_layout_def)
  have four: "VENDOR_SPACE_OFFSET_IN_MISC example_layout = 4"
    by (simp add: example_layout_def)
  from vendor_space_write_confined [OF layout, of 0 10 "[]" example_world "''theme-dark''" no_faults]
    reach
  have "WriteMiscPartitionVendorSpace example_layout ''theme-dark'' 10 0 [] no_faults example_world =
     write_misc_partition ''theme-dark'' 10 ''/dev/block/misc'' 4 [] no_faults
       (emit EvReadDefaultFstab example_world)"
    by (simp add: example_resolves four)
  moreover have "byte_at (snd (snd (WriteMiscPartitionVendorSpace example_layout ''theme-dark'' 10 0 []
       no_faults example_world))) ''/dev/block/misc'' 3 =
     byte_at example_world ''/dev/block/misc'' 3"
    unfolding example_write_dark by (simp add: byte_at_def example_world_def)
  moreover have "byte_at (snd (snd (WriteMiscPartitionVendorSpace example_layout ''theme-dark'' 10 0 []
       no_faults example_world))) ''/dev/block/misc'' 4 = Some CHR ''t''"
    unfolding example_write_dark by (simp add: byte_at_def example_world_def)
  ultimately show ?thesis using layout reach by simp
qed

subsection \<open>The dispatcher and the write path\<close>

lemma nodes_log_error [simp]: "nodes (log_error line w) = nodes w"
  and trace_log_error [simp]: "io_trace (log_error line w) = io_trace w"
  and g_log_error [simp]: "g_misc_device_for_test (log_error line w) = g_misc_device_for_test w"
  and fstab_log_error [simp]: "default_fstab (log_error line w) = default_fstab w"
  by (simp_all add: log_error_def)

lemma PerformAction_selected:
  assumes "action_switch K action override_offset = Some (offset, content)"
  shows "PerformAction K action override_offset fl w =
     (case WriteMiscPartitionVendorSpace K content (of_nat (length content)) offset [] fl w of
        (ok, err, w') \<Rightarrow>
          if ok then (True, w')
          else (False,
                log_error (''Failed to write '' @ content @ '' at offset '' @
                           show_nat (unat offset) @ '' : '' @ err) w'))"
  using assms by (simp add: PerformAction_def split: prod.splits)

lemma PerformAction_True:
  assumes "PerformAction K action override_offset fl w = (True, w')"
  shows "\<exists>offset content err.
           action_switch K action override_offset = Some (offset, content) \<and>
           WriteMiscPartitionVendorSpace K content (of_nat (length content)) offset [] fl w =
             (True, err, w')"
proof (cases "action_switch K action override_offset")
  case None
  with assms show ?thesis by (simp add: PerformAction_def)
next
  case (Some sel)
  obtain offset content where sel: "sel = (offset, content)" by (cases sel)
  obtain ok err w'' where call:
    "WriteMiscPartitionVendorSpace K content (of_nat (length content)) offset [] fl w =
       (ok, err, w'')"
    by (cases "WriteMiscPartitionVendorSpace K content (of_nat (length content)) offset [] fl w")
  from assms Some sel call have "ok" and "w'' = w'"
    by (auto simp: PerformAction_def split: if_splits)
  with Some sel call show ?thesis by simp
qed

lemma WriteMiscPartitionVendorSpace_True:
  assumes "WriteMiscPartitionVendorSpace K data sz offset err fl w = (True, err', w')"
  shows "OffsetAndSizeInVendorSpace K offset sz"
    and "\<exists>dev err1 w1. get_misc_blk_device err w = (dev, err1, w1) \<and> dev \<noteq> [] \<and>
           write_misc_partition data sz dev (VENDOR_SPACE_OFFSET_IN_MISC K + offset) err1 fl w1 =
             (True, err', w')"
proof -
  show inb: "OffsetAndSizeInVendorSpace K offset sz"
    using assms by (auto simp: WriteMiscPartitionVendorSpace_def split: if_splits)
  obtain dev err1 w1 where res: "get_misc_blk_device err w = (dev, err1, w1)"
    by (cases "get_misc_blk_device err w")
  with assms inb have "dev \<noteq> []"
    by (auto simp: WriteMiscPartitionVendorSpace_def)
  with assms inb res
  show "\<exists>dev err1 w1. get_misc_blk_device err w = (dev, err1, w1) \<and> dev \<noteq> [] \<and>
           write_misc_partition data sz dev (VENDOR_SPACE_OFFSET_IN_MISC K + offset) err1 fl w1 =
             (True, err', w')"
    by (simp add: WriteMiscPartitionVendorSpace_def)
qed

subsection \<open>Performing an action twice\<close>

lemma PerformAction_nodes:
  assumes "action_switch K action override_offset = Some (offset, content)"
    and "WriteMiscPartitionVendorSpace K content (of_nat (length content)) offset [] fl w =
           (ok, err, w')"
  shows "nodes (snd (PerformAction K action override_offset fl w)) = nodes w'"
    and "fst (PerformAction K action override_offset fl w) = ok"
  using assms by (simp_all add: PerformAction_selected)

text \<open>
  Claim C9. When \<open>PerformAction\<close> has succeeded, performing the same action again with
  the same override leaves every device as the first run left it, whatever happens in
  the system during the second run: it resolves the same device and writes the same
  content at the same position, so even a second run that is cut short after some bytes
  changes nothing.
\<close>

theorem PerformAction_idempotent:
  assumes first: "PerformAction K action override_offset fl1 w = (True, w1)"
    and second: "PerformAction K action override_offset fl2 w1 = (r, w2)"
  shows "nodes w2 = nodes w1"
proof -
  from PerformAction_True [OF first]
  obtain offset content err where sel: "action_switch K action override_offset = Some (offset, content)"
    and call1: "WriteMiscPartitionVendorSpace K content (of_nat (length content)) offset [] fl1 w =
        (True, err, w1)"
    by (elim exE conjE)
  define sz :: size_t where "sz = of_nat (length content)"
  define target where "target = VENDOR_SPACE_OFFSET_IN_MISC K + offset"
  define at where "at = (if target = - 1 then 0 else unat target)"
  define buf where "buf = take (unat sz) content"
  have inb: "OffsetAndSizeInVendorSpace K offset sz"
    using WriteMiscPartitionVendorSpace_True(1) [OF call1] by (simp only: sz_def)
  from WriteMiscPartitionVendorSpace_True(2) [OF call1]
  obtain dev err1 wa where res1: "get_misc_blk_device [] w = (dev, err1, wa)"
    and dev: "dev \<noteq> []"
    and raw1: "write_misc_partition content sz dev target err1 fl1 wa = (True, err, w1)"
    unfolding sz_def target_def by (elim exE conjE)
  from write_misc_partition_success(2) [OF raw1]
  obtain bs where bs: "nodes wa (c_str dev) = Some bs"
    and fits: "at + length buf \<le> length bs"
    and stored: "nodes w1 = (nodes wa)(c_str dev \<mapsto> store_bytes bs at buf)"
    unfolding at_def buf_def by (elim exE conjE)
  have same_g: "g_misc_device_for_test w1 = g_misc_device_for_test w"
    using write_misc_partition_frame(1) [OF raw1] get_misc_blk_device_frame(2) [OF res1]
    by (simp only:)
  have same_fstab: "default_fstab w1 = default_fstab w"
    using write_misc_partition_frame(2) [OF raw1] get_misc_blk_device_frame(3) [OF res1]
    by (simp only:)
  obtain r' err' w2' where call2:
    "WriteMiscPartitionVendorSpace K content (of_nat (length content)) offset [] fl2 w1 =
       (r', err', w2')"
    by (cases "WriteMiscPartitionVendorSpace K content (of_nat (length content)) offset [] fl2 w1")
  have w2: "nodes w2 = nodes w2'"
    using PerformAction_nodes(1) [OF sel call2] second by simp
  obtain dev2 err2 wb where res2: "get_misc_blk_device [] w1 = (dev2, err2, wb)"
    by (cases "get_misc_blk_device [] w1")
  have "dev2 = dev"
    using get_misc_blk_device_same_path [OF same_g same_fstab, of "[]" "[]"] res1 res2
    by simp
  have wb: "nodes wb = nodes w1"
    by (rule get_misc_blk_device_frame(1) [OF res2])
  have raw2: "write_misc_partition content sz dev target err2 fl2 wb = (r', err', w2')"
    using call2 inb res2 dev \<open>dev2 = dev\<close>
    by (simp add: WriteMiscPartitionVendorSpace_def sz_def target_def)
  have now: "nodes wb (c_str dev) = Some (store_bytes bs at buf)"
    using wb stored by simp
  have "nodes w2' = nodes wb"
  proof (rule disjE [OF write_misc_partition_effect [OF raw2]])
    assume "nodes w2' = nodes wb"
    then show ?thesis .
  next
    assume "\<exists>bs' n. nodes wb (c_str dev) = Some bs' \<and>
        nodes w2' = (nodes wb)(c_str dev \<mapsto>
          store_bytes bs' (if target = - 1 then 0 else unat target)
            (take n (take (unat sz) content)))"
    then obtain bs' n where bs': "nodes wb (c_str dev) = Some bs'"
      and again: "nodes w2' = (nodes wb)(c_str dev \<mapsto> store_bytes bs' at (take n buf))"
      unfolding at_def buf_def by (elim exE conjE)
    from bs' now have "bs' = store_bytes bs at buf" by simp
    with again have "nodes w2' = (nodes wb)(c_str dev \<mapsto>
        store_bytes (store_bytes bs at buf) at (take n buf))"
      by (simp only:)
    also have "store_bytes (store_bytes bs at buf) at (take n buf) = store_bytes bs at buf"
      using fits by (rule store_bytes_again)
    also have "(nodes wb)(c_str dev \<mapsto> store_bytes bs at buf) = nodes wb"
      using now by (rule fun_upd_idem)
    finally show ?thesis .
  qed
  with w2 wb show ?thesis by (simp only:)
qed


lemma example_set_dark:
  "PerformAction example_layout kSetDarkThemeFlag None no_faults example_world =
     (True,
      example_world
        \<lparr>nodes := (nodes example_world)(''/dev/block/misc'' \<mapsto>
                     ''....theme-dark..........................''),
         io_trace := [EvReadDefaultFstab, EvOpen ''/dev/block/misc'', EvLseek 4,
                      EvWrite ''/dev/block/misc'' 4 ''theme-dark'',
                      EvFsync ''/dev/block/misc'', EvClose ''/dev/block/misc'']\<rparr>)"
proof -
  have "action_switch example_layout kSetDarkThemeFlag None = Some (0, ''theme-dark'')"
    by (simp add: example_layout_def value_or_def c_str_def NUL_def)
  from PerformAction_selected [OF this] show ?thesis
    by (simp add: example_write_dark)
qed

theorem PerformAction_idempotent_witness:
  "fst (PerformAction example_layout kSetDarkThemeFlag None no_faults example_world) \<and>
   nodes (snd (PerformAction example_layout kSetDarkThemeFlag None
                 (no_faults\<lparr>write_fault := Some 3\<rparr>)
                 (snd (PerformAction example_layout kSetDarkThemeFlag None no_faults
                         example_world)))) =
   nodes (snd (PerformAction example_layout kSetDarkThemeFlag None no_faults example_world))"
proof -
  define w1 where
    "w1 = snd (PerformAction example_layout kSetDarkThemeFlag None no_faults example_world)"
  have first: "PerformAction example_layout kSetDarkThemeFlag None no_faults example_world =
      (True, w1)"
    unfolding w1_def by (simp add: example_set_dark)
  have "nodes (snd (PerformAction example_layout kSetDarkThemeFlag None
      (no_faults\<lparr>write_fault := Some 3\<rparr>) w1)) = nodes w1"
    by (rule PerformAction_idempotent [OF first prod.collapse [symmetric]])
  moreover have "fst (PerformAction example_layout kSetDarkThemeFlag None no_faults
      example_world)"
    by (simp add: example_set_dark)
  ultimately show ?thesis
    unfolding w1_def by (rule conjI [rotated])
qed


subsection \<open>The offset override\<close>

lemma action_switch_override:
  assumes "action \<noteq> kUnset"
  shows "\<exists>default content.
           action_switch K action None = Some (default, content) \<and>
           action_switch K action (Some ov) = Some (ov, content)"
  using assms by (cases action) (simp_all add: value_or_def)

lemma WriteMiscPartitionVendorSpace_flag_offsets:
  "WriteMiscPartitionVendorSpace
     (K\<lparr>kThemeFlagOffsetInVendorSpace := a, kSotaFlagOffsetInVendorSpace := b\<rparr>)
     data sz offset err fl w =
   WriteMiscPartitionVendorSpace K data sz offset err fl w"
  by (simp add: WriteMiscPartitionVendorSpace_def OffsetAndSizeInVendorSpace_def
      split: prod.splits)

lemma PerformAction_override_as_default:
  "PerformAction K action (Some ov) fl w =
   PerformAction (K\<lparr>kThemeFlagOffsetInVendorSpace := ov, kSotaFlagOffsetInVendorSpace := ov\<rparr>)
     action None fl w"
  by (cases action)
     (simp_all add: PerformAction_def value_or_def WriteMiscPartitionVendorSpace_flag_offsets)

lemma PerformAction_out_of_bounds:
  assumes "action_switch K action override_offset = Some (offset, content)"
    and "\<not> OffsetAndSizeInVendorSpace K offset (of_nat (length content))"
  shows "PerformAction K action override_offset fl w =
     (False,
      log_error (''Failed to write '' @ content @ '' at offset '' @ show_nat (unat offset) @
                 '' : '' @ ''Out of bound write (offset '' @ show_nat (unat offset) @
                 '' size '' @ show_nat (unat (of_nat (length content) :: size_t)) @ '')'') w)"
  using assms by (simp add: PerformAction_selected WriteMiscPartitionVendorSpace_def)

lemma PerformAction_success_stores:
  assumes layout: "VENDOR_SPACE_OFFSET_IN_MISC K \<le> WIPE_PACKAGE_OFFSET_IN_MISC K"
    and sel: "action_switch K action override_offset = Some (offset, content)"
    and len: "length content < 2 ^ 64"
    and ok: "PerformAction K action override_offset fl w = (True, w')"
  shows "\<exists>dev bs. nodes w dev = Some bs \<and>
           (content \<noteq> [] \<longrightarrow>
              unat (VENDOR_SPACE_OFFSET_IN_MISC K) + unat offset + length content \<le> length bs) \<and>
           nodes w' = (nodes w)(dev \<mapsto>
             store_bytes bs (unat (VENDOR_SPACE_OFFSET_IN_MISC K) + unat offset) content)"
proof -
  define sz :: size_t where "sz = of_nat (length content)"
  define target where "target = VENDOR_SPACE_OFFSET_IN_MISC K + offset"
  define at where "at = (if target = - 1 then 0 else unat target)"
  have sz: "unat sz = length content"
    unfolding sz_def using len by (simp add: unat_of_nat)
  from PerformAction_True [OF ok] sel
  obtain err where call: "WriteMiscPartitionVendorSpace K content sz offset [] fl w = (True, err, w')"
    unfolding sz_def by (elim exE conjE) simp
  have inb: "OffsetAndSizeInVendorSpace K offset sz"
    by (rule WriteMiscPartitionVendorSpace_True(1) [OF call])
  from WriteMiscPartitionVendorSpace_True(2) [OF call]
  obtain dev err1 wa where res: "get_misc_blk_device [] w = (dev, err1, wa)"
    and raw: "write_misc_partition content sz dev target err1 fl wa = (True, err, w')"
    unfolding target_def by (elim exE conjE)
  have wa: "nodes wa = nodes w"
    by (rule get_misc_blk_device_frame(1) [OF res])
  from write_misc_partition_success(2) [OF raw]
  obtain bs where bs: "nodes w (c_str dev) = Some bs"
    and fits: "at + length content \<le> length bs"
    and stored: "nodes w' = (nodes w)(c_str dev \<mapsto> store_bytes bs at content)"
    unfolding at_def sz wa by (elim exE conjE) simp
  have target: "unat target = unat (VENDOR_SPACE_OFFSET_IN_MISC K) + unat offset"
    and top: "unat (VENDOR_SPACE_OFFSET_IN_MISC K) + unat offset + unat sz \<le>
      unat (WIPE_PACKAGE_OFFSET_IN_MISC K)"
    using vendor_offset_no_wrap [OF layout inb] by (simp_all add: target_def)
  show ?thesis
  proof (cases "target = - 1")
    case True
    have "unat (WIPE_PACKAGE_OFFSET_IN_MISC K) < 2 ^ 64"
      using unsigned_less [of "WIPE_PACKAGE_OFFSET_IN_MISC K", where ?'a = nat] by simp
    moreover have "unat target = 2 ^ 64 - 1"
      using True by (simp add: unsigned_minus_1_eq_mask mask_eq_exp_minus_1)
    ultimately have "length content = 0"
      using target top sz by linarith
    then have "content = []" by simp
    with bs stored show ?thesis
      by (intro exI [of _ "c_str dev"] exI [of _ bs]) simp
  next
    case False
    then have "at = unat (VENDOR_SPACE_OFFSET_IN_MISC K) + unat offset"
      using target by (simp add: at_def)
    with bs fits stored show ?thesis
      by (intro exI [of _ "c_str dev"] exI [of _ bs]) simp
  qed
qed


text \<open>
  Claim C5. For a set or clear action and an override \<open>ov\<close>: the switch selects the
  content it selects without an override, and \<open>ov\<close> as the offset; \<open>PerformAction\<close> is
  the write of that content at \<open>ov\<close> through \<open>WriteMiscPartitionVendorSpace\<close>, and it is
  what \<open>PerformAction\<close> without an override does when the default offsets of the flags
  are \<open>ov\<close>; when \<open>ov\<close> fails the bounds check the call fails, with no system call
  and no device changed; and when the call succeeds (in a vendor space that does not
  end before it starts) the content is on the device at \<open>VENDOR_SPACE_OFFSET_IN_MISC + ov\<close>.
\<close>

theorem override_offset_takes_precedence:
  assumes "action \<noteq> kUnset"
  shows "\<exists>default content.
     action_switch K action None = Some (default, content) \<and>
     action_switch K action (Some ov) = Some (ov, content) \<and>
     PerformAction K action (Some ov) fl w =
       (case WriteMiscPartitionVendorSpace K content (of_nat (length content)) ov [] fl w of
          (ok, err, w') \<Rightarrow>
            if ok then (True, w')
            else (False,
                  log_error (''Failed to write '' @ content @ '' at offset '' @
                             show_nat (unat ov) @ '' : '' @ err) w')) \<and>
     PerformAction K action (Some ov) fl w =
       PerformAction
         (K\<lparr>kThemeFlagOffsetInVendorSpace := ov, kSotaFlagOffsetInVendorSpace := ov\<rparr>)
         action None fl w \<and>
     (\<not> OffsetAndSizeInVendorSpace K ov (of_nat (length content)) \<longrightarrow>
        \<not> fst (PerformAction K action (Some ov) fl w) \<and>
        nodes (snd (PerformAction K action (Some ov) fl w)) = nodes w \<and>
        io_trace (snd (PerformAction K action (Some ov) fl w)) = io_trace w) \<and>
     (VENDOR_SPACE_OFFSET_IN_MISC K \<le> WIPE_PACKAGE_OFFSET_IN_MISC K \<and>
      length content < 2 ^ 64 \<and> fst (PerformAction K action (Some ov) fl w) \<longrightarrow>
        (\<exists>dev bs. nodes w dev = Some bs \<and>
           (content \<noteq> [] \<longrightarrow>
              unat (VENDOR_SPACE_OFFSET_IN_MISC K) + unat ov + length content \<le> length bs) \<and>
           nodes (snd (PerformAction K action (Some ov) fl w)) =
             (nodes w)(dev \<mapsto>
               store_bytes bs (unat (VENDOR_SPACE_OFFSET_IN_MISC K) + unat ov) content)))"
proof -
  from action_switch_override [OF assms, of K ov]
  obtain default content where none: "action_switch K action None = Some (default, content)"
    and some: "action_switch K action (Some ov) = Some (ov, content)"
    by (elim exE conjE)
  have rejected: "\<not> fst (PerformAction K action (Some ov) fl w) \<and>
        nodes (snd (PerformAction K action (Some ov) fl w)) = nodes w \<and>
        io_trace (snd (PerformAction K action (Some ov) fl w)) = io_trace w"
    if "\<not> OffsetAndSizeInVendorSpace K ov (of_nat (length content))"
    by (simp add: PerformAction_out_of_bounds [OF some that])
  have written: "\<exists>dev bs. nodes w dev = Some bs \<and>
           (content \<noteq> [] \<longrightarrow>
              unat (VENDOR_SPACE_OFFSET_IN_MISC K) + unat ov + length content \<le> length bs) \<and>
           nodes (snd (PerformAction K action (Some ov) fl w)) =
             (nodes w)(dev \<mapsto>
               store_bytes bs (unat (VENDOR_SPACE_OFFSET_IN_MISC K) + unat ov) content)"
    if "VENDOR_SPACE_OFFSET_IN_MISC K \<le> WIPE_PACKAGE_OFFSET_IN_MISC K"
      and "length content < 2 ^ 64" and "fst (PerformAction K action (Some ov) fl w)"
  proof -
    from that(3) have "PerformAction K action (Some ov) fl w =
        (True, snd (PerformAction K action (Some ov) fl w))"
      by (cases "PerformAction K action (Some ov) fl w") simp
    from PerformAction_success_stores [OF that(1) some that(2) this] show ?thesis .
  qed
  show ?thesis
  proof (rule exI [of _ default], rule exI [of _ content], intro conjI impI)
    show "action_switch K action None = Some (default, content)" by (fact none)
    show "action_switch K action (Some ov) = Some (ov, content)" by (fact some)
    show "PerformAction K action (Some ov) fl w =
       (case WriteMiscPartitionVendorSpace K content (of_nat (length content)) ov [] fl w of
          (ok, err, w') \<Rightarrow>
            if ok then (True, w')
            else (False,
                  log_error (''Failed to write '' @ content @ '' at offset '' @
                             show_nat (unat ov) @ '' : '' @ err) w'))"
      by (rule PerformAction_selected [OF some])
    show "PerformAction K action (Some ov) fl w =
       PerformAction
         (K\<lparr>kThemeFlagOffsetInVendorSpace := ov, kSotaFlagOffsetInVendorSpace := ov\<rparr>)
         action None fl w"
      by (rule PerformAction_override_as_default)
  next
    assume out: "\<not> OffsetAndSizeInVendorSpace K ov (of_nat (length content))"
    from rejected [OF out]
    show "\<not> fst (PerformAction K action (Some ov) fl w)"
      and "nodes (snd (PerformAction K action (Some ov) fl w)) = nodes w"
      and "io_trace (snd (PerformAction K action (Some ov) fl w)) = io_trace w"
      by simp_all
  next
    assume "VENDOR_SPACE_OFFSET_IN_MISC K \<le> WIPE_PACKAGE_OFFSET_IN_MISC K \<and>
      length content < 2 ^ 64 \<and> fst (PerformAction K action (Some ov) fl w)"
    then show "\<exists>dev bs. nodes w dev = Some bs \<and>
           (content \<noteq> [] \<longrightarrow>
              unat (VENDOR_SPACE_OFFSET_IN_MISC K) + unat ov + length content \<le> length bs) \<and>
           nodes (snd (PerformAction K action (Some ov) fl w)) =
             (nodes w)(dev \<mapsto>
               store_bytes bs (unat (VENDOR_SPACE_OFFSET_IN_MISC K) + unat ov) content)"
      using written by (elim conjE)
  qed
qed


lemma example_override_20:
  "PerformAction
     (example_layout\<lparr>kThemeFlagOffsetInVendorSpace := 20, kSotaFlagOffsetInVendorSpace := 20\<rparr>)
     kSetDarkThemeFlag None no_faults example_world =
     (True,
      example_world
        \<lparr>nodes := (nodes example_world)(''/dev/block/misc'' \<mapsto>
                     ''........................theme-dark......''),
         io_trace := [EvReadDefaultFstab, EvOpen ''/dev/block/misc'', EvLseek 24,
                      EvWrite ''/dev/block/misc'' 24 ''theme-dark'',
                      EvFsync ''/dev/block/misc'', EvClose ''/dev/block/misc'']\<rparr>)"
  by (simp add: PerformAction_def value_or_def
      WriteMiscPartitionVendorSpace_def OffsetAndSizeInVendorSpace_def
      get_misc_blk_device_def write_misc_partition_def sys_open_def sys_lseek_def dev_size_def
      WriteFully_def sys_fsync_def store_bytes_def emit_def c_str_def NUL_def Let_def
      example_layout_def example_world_def no_faults_def)

lemma example_override_30:
  "fst (PerformAction
     (example_layout\<lparr>kThemeFlagOffsetInVendorSpace := 30, kSotaFlagOffsetInVendorSpace := 30\<rparr>)
     kSetDarkThemeFlag None no_faults example_world) = False"
  by (simp add: PerformAction_def value_or_def
      WriteMiscPartitionVendorSpace_def OffsetAndSizeInVendorSpace_def
      c_str_def NUL_def Let_def example_layout_def)

theorem override_offset_takes_precedence_witness:
  "fst (PerformAction example_layout kSetDarkThemeFlag (Some 20) no_faults example_world) \<and>
   nodes (snd (PerformAction example_layout kSetDarkThemeFlag (Some 20) no_faults example_world))
     ''/dev/block/misc'' = Some ''........................theme-dark......'' \<and>
   \<not> fst (PerformAction example_layout kSetDarkThemeFlag (Some 30) no_faults example_world)"
proof -
  have set: "kSetDarkThemeFlag \<noteq> kUnset" by simp
  from override_offset_takes_precedence [OF set, of example_layout 20 no_faults example_world]
  have at_20: "PerformAction example_layout kSetDarkThemeFlag (Some 20) no_faults example_world =
      PerformAction
        (example_layout\<lparr>kThemeFlagOffsetInVendorSpace := 20, kSotaFlagOffsetInVendorSpace := 20\<rparr>)
        kSetDarkThemeFlag None no_faults example_world"
    by (elim exE conjE)
  from override_offset_takes_precedence [OF set, of example_layout 30 no_faults example_world]
  have at_30: "PerformAction example_layout kSetDarkThemeFlag (Some 30) no_faults example_world =
      PerformAction
        (example_layout\<lparr>kThemeFlagOffsetInVendorSpace := 30, kSotaFlagOffsetInVendorSpace := 30\<rparr>)
        kSetDarkThemeFlag None no_faults example_world"
    by (elim exE conjE)
  show ?thesis
    unfolding at_20 at_30 example_override_20 example_override_30 by simp
qed

subsection \<open>Outcomes of the write path\<close>

text \<open>
  A failing raw write names the failing call in \<open>err\<close>. A successful raw write at an
  offset other than \<open>2\<^sup>6\<^sup>4 - 1\<close> has passed all four calls, and the buffer is on the
  device at the offset. A failing write into the vendor space has set \<open>err\<close>, unless
  the fstab entry for \<open>/misc\<close> has an empty \<open>blk_device\<close>.
\<close>

lemma write_misc_partition_failure:
  assumes "write_misc_partition p sz dev off err fl w = (False, err', w')"
  shows "\<exists>step. step \<in> {''open'', ''lseek'', ''write'', ''fsync''} \<and>
           err' = ''failed to '' @ step @ '' '' @ c_str dev @ '': '' @ strerror_errno fl"
proof (cases "sys_open (c_str dev) fl (emit (EvOpen (c_str dev)) w)")
  case None
  with assms have "err' = ''failed to '' @ ''open'' @ '' '' @ c_str dev @ '': '' @ strerror_errno fl"
    by (simp add: write_misc_partition_def Let_def)
  then show ?thesis by blast
next
  case (Some f)
  obtain q f' where seek: "sys_lseek f (sint off) fl (emit (EvOpen (c_str dev)) w) = (q, f')"
    by (cases "sys_lseek f (sint off) fl (emit (EvOpen (c_str dev)) w)")
  obtain ok w3 where wf: "WriteFully f' (take (unat sz) p) fl
      (emit (EvLseek (sint off)) (emit (EvOpen (c_str dev)) w)) = (ok, w3)"
    by (cases "WriteFully f' (take (unat sz) p) fl
      (emit (EvLseek (sint off)) (emit (EvOpen (c_str dev)) w))")
  from assms Some seek wf
  have "err' = ''failed to '' @ ''lseek'' @ '' '' @ c_str dev @ '': '' @ strerror_errno fl \<or>
        err' = ''failed to '' @ ''write'' @ '' '' @ c_str dev @ '': '' @ strerror_errno fl \<or>
        err' = ''failed to '' @ ''fsync'' @ '' '' @ c_str dev @ '': '' @ strerror_errno fl"
    by (simp add: write_misc_partition_def Let_def split: if_splits)
  then show ?thesis by blast
qed

lemma write_misc_partition_failure_diagnostic:
  assumes "write_misc_partition p sz dev off err fl w = (False, err', w')"
  shows "err' \<noteq> []"
  using write_misc_partition_failure [OF assms] by auto

lemma write_misc_partition_success_steps:
  assumes "write_misc_partition p sz dev off err fl w = (True, err', w')" and "off \<noteq> - 1"
  shows "\<not> open_fault fl \<and> \<not> lseek_fault fl \<and> \<not> fsync_fault fl \<and>
         (\<exists>bs. nodes w (c_str dev) = Some bs \<and>
            unat off + length (take (unat sz) p) \<le> length bs \<and>
            nodes w' (c_str dev) = Some (store_bytes bs (unat off) (take (unat sz) p)))"
proof -
  obtain f where opened: "sys_open (c_str dev) fl (emit (EvOpen (c_str dev)) w) = Some f"
    using assms(1)
    by (cases "sys_open (c_str dev) fl (emit (EvOpen (c_str dev)) w)")
       (auto simp: write_misc_partition_def Let_def)
  then have no_open_fault: "\<not> open_fault fl"
    by (simp add: sys_open_Some)
  obtain q f' where seek: "sys_lseek f (sint off) fl (emit (EvOpen (c_str dev)) w) = (q, f')"
    by (cases "sys_lseek f (sint off) fl (emit (EvOpen (c_str dev)) w)")
  obtain ok w3 where wf: "WriteFully f' (take (unat sz) p) fl
      (emit (EvLseek (sint off)) (emit (EvOpen (c_str dev)) w)) = (ok, w3)"
    by (cases "WriteFully f' (take (unat sz) p) fl
      (emit (EvLseek (sint off)) (emit (EvOpen (c_str dev)) w))")
  have pass: "q = sint off" and flushed: "sys_fsync fl \<noteq> - 1"
    using assms(1) opened seek wf
    by (auto simp: write_misc_partition_def Let_def split: if_splits)
  have no_seek_fault: "\<not> lseek_fault fl"
    using sys_lseek_pass(3) [OF seek pass assms(2)] by simp
  have no_fsync_fault: "\<not> fsync_fault fl"
    using flushed by (simp add: sys_fsync_def split: if_splits)
  from write_misc_partition_success(2) [OF assms(1)] assms(2)
  have "\<exists>bs. nodes w (c_str dev) = Some bs \<and>
            unat off + length (take (unat sz) p) \<le> length bs \<and>
            nodes w' (c_str dev) = Some (store_bytes bs (unat off) (take (unat sz) p))"
    by (elim exE conjE) simp
  with no_open_fault no_seek_fault no_fsync_fault show ?thesis by (intro conjI)
qed

lemma WriteMiscPartitionVendorSpace_failure_diagnostic:
  assumes "WriteMiscPartitionVendorSpace K data sz offset [] fl w = (False, err', w')"
  shows "err' \<noteq> [] \<or>
         (g_misc_device_for_test w = [] \<and>
          (\<exists>fstab. default_fstab w = Some fstab \<and> scan_fstab fstab = Some []))"
proof (cases "OffsetAndSizeInVendorSpace K offset sz")
  case False
  with assms show ?thesis by (auto simp: WriteMiscPartitionVendorSpace_def)
next
  case True
  obtain dev err1 w1 where res: "get_misc_blk_device [] w = (dev, err1, w1)"
    by (cases "get_misc_blk_device [] w")
  show ?thesis
  proof (cases "dev = []")
    case False
    with assms True res
    have "write_misc_partition data sz dev (VENDOR_SPACE_OFFSET_IN_MISC K + offset) err1 fl w1 =
        (False, err', w')"
      by (simp add: WriteMiscPartitionVendorSpace_def)
    then have "err' \<noteq> []" by (rule write_misc_partition_failure_diagnostic)
    then show ?thesis by (rule disjI1)
  next
    case empty: True
    with assms True res have "err' = err1"
      by (simp add: WriteMiscPartitionVendorSpace_def)
    with res empty show ?thesis
      by (auto simp: get_misc_blk_device_def Let_def split: if_splits option.splits)
  qed
qed

subsection \<open>Two inputs on which the code departs from its description\<close>

text \<open>
  Claim C3. \<open>write_misc_partition\<close> is to return success only when the seek has landed
  at the requested offset. At the offset \<open>2\<^sup>6\<^sup>4 - 1\<close> the cast to \<^verbatim>\<open>off_t\<close> is -1;
  \<^verbatim>\<open>lseek\<close> refuses the negative offset and returns -1, which the comparison
  \<^verbatim>\<open>lseek(...) != static_cast<off_t>(offset)\<close> takes for the requested position. The
  call goes on, stores the buffer at position 0, where the new descriptor stands, and
  returns success with \<open>err\<close> untouched.
\<close>

theorem write_misc_partition_seek_sentinel:
  "fst (sys_lseek \<lparr>fd_path = ''/dev/block/misc'', fd_pos = 0\<rparr> (sint (- 1 :: size_t)) no_faults
          (emit (EvOpen ''/dev/block/misc'') example_world)) = - 1 \<and>
   write_misc_partition ''XY'' 2 ''/dev/block/misc'' (- 1) ''stale'' no_faults example_world =
     (True, ''stale'',
      example_world
        \<lparr>nodes := (nodes example_world)(''/dev/block/misc'' \<mapsto>
                     ''XY......................................''),
         io_trace := [EvOpen ''/dev/block/misc'', EvLseek (- 1),
                      EvWrite ''/dev/block/misc'' 0 ''XY'',
                      EvFsync ''/dev/block/misc'', EvClose ''/dev/block/misc'']\<rparr>)"
  by (simp add: write_misc_partition_def sys_open_def sys_lseek_def dev_size_def
      WriteFully_def sys_fsync_def store_bytes_def emit_def c_str_def NUL_def Let_def
      example_world_def no_faults_def)

text \<open>
  Claim C6. Every failure of the write path is to come with a diagnostic. When the
  fstab entry for \<open>/misc\<close> has an empty \<open>blk_device\<close>, \<open>get_misc_blk_device\<close> returns
  the empty path without setting \<open>err\<close>, \<open>WriteMiscPartitionVendorSpace\<close> returns
  failure with \<open>err\<close> still empty, and the line that \<open>PerformAction\<close> logs ends where
  the cause should be.
\<close>

theorem empty_blk_device_leaves_err_unset:
  "WriteMiscPartitionVendorSpace example_layout ''theme-dark'' 10 0 [] no_faults
     (example_world\<lparr>default_fstab := Some [\<lparr>mount_point = ''/misc'', blk_device = []\<rparr>]\<rparr>) =
     (False, [],
      example_world\<lparr>default_fstab := Some [\<lparr>mount_point = ''/misc'', blk_device = []\<rparr>],
                    io_trace := [EvReadDefaultFstab]\<rparr>) \<and>
   PerformAction example_layout kSetDarkThemeFlag None no_faults
     (example_world\<lparr>default_fstab := Some [\<lparr>mount_point = ''/misc'', blk_device = []\<rparr>]\<rparr>) =
     (False,
      example_world\<lparr>default_fstab := Some [\<lparr>mount_point = ''/misc'', blk_device = []\<rparr>],
                    io_trace := [EvReadDefaultFstab],
                    error_log := [''Failed to write theme-dark at offset 0 : '']\<rparr>)"
  by (simp add: PerformAction_def value_or_def log_error_def show_nat.simps digit_def
      WriteMiscPartitionVendorSpace_def OffsetAndSizeInVendorSpace_def
      get_misc_blk_device_def emit_def c_str_def NUL_def Let_def
      example_layout_def example_world_def no_faults_def)

end
